theory Spec2Isabelle
  imports Main "HOL-Library.Sublist"
begin

section \<open>The regular expressions of the rule table\<close>

text \<open>
  \<^verbatim>\<open>jsonval.py\<close> scans its input with \<^verbatim>\<open>re.match(rule[1], src[position:])\<close>. The
  patterns are embedded as syntax trees and matched by a backtracking matcher that
  lists the ways a pattern can match a prefix of the text, most preferred first, as the
  library's matcher explores them: a quantifier is greedy, an alternation tries its
  left branch first.

  A character is a code point below 256. On that range \<^verbatim>\<open>\d\<close> is the ten ASCII digits,
  \<^verbatim>\<open>\s\<close> is the whitespace of a \<^verbatim>\<open>str\<close> pattern (tab, line feed, vertical tab, form feed,
  carriage return, the four separators 0x1C to 0x1F, space, 0x85 and 0xA0), and \<^verbatim>\<open>.\<close>
  (no flag is given) is every character except the line feed.
\<close>

datatype citem = CChar char | CDigit | CSpace

datatype regex =
    Eps
  | Lit char
  | Dot
  | Cls "citem list"
  | Seq regex regex
  | Alt regex regex
  | Opt regex
  | Star regex

abbreviation Plus :: "regex \<Rightarrow> regex" where
  "Plus r \<equiv> Seq r (Star r)"

fun Str :: "string \<Rightarrow> regex" where
  "Str [] = Eps"
| "Str (c # cs) = Seq (Lit c) (Str cs)"

definition is_digit :: "char \<Rightarrow> bool" where
  "is_digit c = (c \<in> set ''0123456789'')"

definition is_space :: "char \<Rightarrow> bool" where
  "is_space c = (c \<in> set [CHR 0x09, CHR 0x0A, CHR 0x0B, CHR 0x0C, CHR 0x0D,
      CHR 0x1C, CHR 0x1D, CHR 0x1E, CHR 0x1F, CHR 0x20, CHR 0x85, CHR 0xA0])"

fun in_item :: "citem \<Rightarrow> char \<Rightarrow> bool" where
  "in_item (CChar d) c = (c = d)"
| "in_item CDigit c = is_digit c"
| "in_item CSpace c = is_space c"

text \<open>
  \<open>paths r s\<close> lists what is left of \<open>s\<close> after each way of matching \<open>r\<close> at its start,
  in the matcher's order of preference. An iteration of a starred pattern that consumes
  nothing is not repeated.
\<close>

fun paths :: "regex \<Rightarrow> string \<Rightarrow> string list" where
  "paths Eps s = [s]"
| "paths (Lit c) s = (case s of [] \<Rightarrow> [] | x # r \<Rightarrow> if x = c then [r] else [])"
| "paths Dot s = (case s of [] \<Rightarrow> [] | x # r \<Rightarrow> if x \<noteq> CHR 0x0A then [r] else [])"
| "paths (Cls items) s =
     (case s of [] \<Rightarrow> [] | x # r \<Rightarrow> if \<exists>i \<in> set items. in_item i x then [r] else [])"
| "paths (Seq a b) s = concat (map (paths b) (paths a s))"
| "paths (Alt a b) s = paths a s @ paths b s"
| "paths (Opt a) s = paths a s @ [s]"
| "paths (Star a) s =
     concat (map (\<lambda>s'. if length s' < length s then paths (Star a) s' else []) (paths a s))
       @ [s]"

declare paths.simps(8) [simp del]

text \<open>
  Every pattern of the table has one capturing group, with literal text before and after
  it at most: \<open>pre(grp)post\<close>. A match object gives \<^verbatim>\<open>group(0)\<close>, the whole matched text,
  and \<^verbatim>\<open>group(1)\<close>, the text of the group.
\<close>

record pattern =
  pre :: regex
  grp :: regex
  post :: regex

record match =
  group0 :: string
  group1 :: string

definition re_match :: "pattern \<Rightarrow> string \<Rightarrow> match option" where
  "re_match p s =
     (case [(s1, s2, s3). s1 \<leftarrow> paths (pre p) s, s2 \<leftarrow> paths (grp p) s1,
                          s3 \<leftarrow> paths (post p) s2] of
        [] \<Rightarrow> None
      | (s1, s2, s3) # _ \<Rightarrow>
          Some \<lparr>group0 = take (length s - length s3) s,
                group1 = take (length s1 - length s2) s1\<rparr>)"

definition only :: "regex \<Rightarrow> pattern" where
  "only r = \<lparr>pre = Eps, grp = r, post = Eps\<rparr>"

section \<open>Tokens\<close>

record token =
  name :: string
  value_str :: string
  position :: nat

definition Token :: "string \<Rightarrow> string \<Rightarrow> nat \<Rightarrow> token" where
  "Token n v p = \<lparr>name = n, value_str = v, position = p\<rparr>"

datatype exn = ValueError string | IndexError string

definition is_opening :: "token \<Rightarrow> bool" where
  "is_opening t = prefix ''open'' (name t)"

definition is_closing :: "token \<Rightarrow> bool" where
  "is_closing t = prefix ''close'' (name t)"

fun split_on :: "char \<Rightarrow> string \<Rightarrow> string list" where
  "split_on sep [] = [[]]"
| "split_on sep (c # cs) =
     (if c = sep then [] # split_on sep cs
      else (case split_on sep cs of [] \<Rightarrow> [[c]] | w # ws \<Rightarrow> (c # w) # ws))"

definition bracket_type :: "token \<Rightarrow> exn + string option" where
  "bracket_type t =
     (if is_closing t \<or> is_opening t then
        (case split_on (CHR ''_'') (name t) of
           _ # b # _ \<Rightarrow> Inr (Some b)
         | _ \<Rightarrow> Inl (IndexError ''list index out of range''))
      else Inr None)"

section \<open>The lexer\<close>

type_synonym rule = "string option \<times> pattern"

definition rules :: "rule list" where
  "rules =
    [(Some ''string'', \<lparr>pre = Lit (CHR 0x22), grp = Star Dot, post = Lit (CHR 0x22)\<rparr>),
     (Some ''boolean'', only (Alt (Str ''true'') (Str ''false''))),
     (Some ''assignment'', only (Lit (CHR '':''))),
     (Some ''open_square'', only (Lit (CHR ''[''))),
     (Some ''open_curly'', only (Lit (CHR ''{''))),
     (Some ''close_square'', only (Lit (CHR '']''))),
     (Some ''close_curly'', only (Lit (CHR ''}''))),
     (Some ''separator'', only (Lit (CHR '',''))),
     (Some ''number'', only (Seq (Opt (Lit (CHR ''-''))) (Plus (Cls [CDigit, CChar (CHR ''.'')])))),
     (None, only (Plus (Cls [CSpace])))]"

text \<open>The \<^verbatim>\<open>for rule in rules\<close> loop: the first rule that matches, or nothing (its \<^verbatim>\<open>else\<close>).\<close>

fun first_match :: "rule list \<Rightarrow> string \<Rightarrow> (rule \<times> match) option" where
  "first_match [] s = None"
| "first_match (rule # rs) s =
     (case re_match (snd rule) s of
        Some m \<Rightarrow> Some (rule, m)
      | None \<Rightarrow> first_match rs s)"

text \<open>
  \<^verbatim>\<open>if rule[0]: yield Token(rule[0], match.group(1), position)\<close>: a token is yielded
  when the rule's name is neither \<^verbatim>\<open>None\<close> nor the empty string.
\<close>

fun emit :: "rule \<Rightarrow> match \<Rightarrow> nat \<Rightarrow> token list" where
  "emit (None, p) m pos = []"
| "emit (Some n, p) m pos =
     (if n \<noteq> [] then [Token n (group1 m) pos] else [])"

text \<open>The decimal numeral of the f-string.\<close>

fun str_nat :: "nat \<Rightarrow> string" where
  "str_nat n =
     (if n < 10 then [''0123456789'' ! n]
      else str_nat (n div 10) @ [''0123456789'' ! (n mod 10)])"

declare str_nat.simps [simp del]

definition unrecognized :: "nat \<Rightarrow> exn" where
  "unrecognized pos = ValueError (''Unrecognized token starting at position '' @ str_nat pos)"

text \<open>
  The generator: \<open>out\<close> collects the tokens yielded so far, and the result is the tokens
  yielded together with the exception that ends the iteration, if one does. A scan that
  went on for ever would be the value \<open>None\<close>.
\<close>

partial_function (option) lex_loop ::
  "string \<Rightarrow> nat \<Rightarrow> token list \<Rightarrow> (token list \<times> exn option) option" where
  "lex_loop src pos out =
     (if pos < length src then
        (case first_match rules (drop pos src) of
           Some (rule, m) \<Rightarrow>
             lex_loop src (pos + length (group0 m)) (out @ emit rule m pos)
         | None \<Rightarrow> Some (out, Some (unrecognized pos)))
      else Some (out, None))"

declare lex_loop.simps [code]

definition lex :: "string \<Rightarrow> (token list \<times> exn option) option" where
  "lex src = lex_loop src 0 []"

section \<open>The validator\<close>

text \<open>The body of \<^verbatim>\<open>validate\<close> is its docstring: it returns \<^verbatim>\<open>None\<close> whatever the document.\<close>

definition validate :: "string \<Rightarrow> exn + unit" where
  "validate doc = Inr ()"

definition main :: "string \<Rightarrow> exn + unit" where
  "main stdin = validate stdin"

section \<open>Notions used to state the properties\<close>

text \<open>A pattern is nullable when it can match the empty text.\<close>

fun nullable :: "regex \<Rightarrow> bool" where
  "nullable Eps = True"
| "nullable (Lit c) = False"
| "nullable Dot = False"
| "nullable (Cls items) = False"
| "nullable (Seq a b) = (nullable a \<and> nullable b)"
| "nullable (Alt a b) = (nullable a \<or> nullable b)"
| "nullable (Opt a) = True"
| "nullable (Star a) = True"

text \<open>
  \<open>run src pos ms\<close> replays the scanning loop from cursor \<open>pos\<close>: \<open>ms\<close> lists, in order,
  the rule and the match object of each iteration, discarded whitespace included, and
  the result is the cursor after them; it is \<open>None\<close> when \<open>ms\<close> is not what the loop does.
  \<open>emitted pos ms\<close> is what those iterations yield.
\<close>

fun run :: "string \<Rightarrow> nat \<Rightarrow> (rule \<times> match) list \<Rightarrow> nat option" where
  "run src pos [] = Some pos"
| "run src pos ((rule, m) # ms) =
     (if pos < length src \<and> first_match rules (drop pos src) = Some (rule, m)
      then run src (pos + length (group0 m)) ms else None)"

fun emitted :: "nat \<Rightarrow> (rule \<times> match) list \<Rightarrow> token list" where
  "emitted pos [] = []"
| "emitted pos ((rule, m) # ms) = emit rule m pos @ emitted (pos + length (group0 m)) ms"

text \<open>
  The ways the string pattern can end after its opening quote: what \<^verbatim>\<open>.*\<close> leaves, and
  what is left after the closing quote.
\<close>

definition closers :: "string \<Rightarrow> (string \<times> string) list" where
  "closers s = [(s2, s3). s2 \<leftarrow> paths (Star Dot) s, s3 \<leftarrow> paths (Lit (CHR 0x22)) s2]"

text \<open>
  Balanced and correctly nested brackets, as the design describes the check: an opening
  token is pushed, a closing token needs an opening token of its bracket type on top of
  the stack, which it pops, other tokens are passed over, and the stack is empty at the
  end. A balanced document is one that lexes without error to such tokens.
\<close>

fun nested :: "token list \<Rightarrow> token list \<Rightarrow> bool" where
  "nested stack [] = (stack = [])"
| "nested stack (t # ts) =
     (if is_opening t then nested (t # stack) ts
      else if is_closing t then
        (case stack of
           [] \<Rightarrow> False
         | opener # stack' \<Rightarrow> bracket_type opener = bracket_type t \<and> nested stack' ts)
      else nested stack ts)"

definition balanced_document :: "string \<Rightarrow> bool" where
  "balanced_document doc =
     (case lex doc of Some (toks, None) \<Rightarrow> nested [] toks | _ \<Rightarrow> False)"

section \<open>The matcher: what a match consumes\<close>

lemma paths_Star_iff:
  "s' \<in> set (paths (Star a) s) \<longleftrightarrow>
     s' = s \<or> (\<exists>t \<in> set (paths a s). length t < length s \<and> s' \<in> set (paths (Star a) t))"
  by (subst paths.simps(8)) auto

lemma paths_suffix: "s' \<in> set (paths r s) \<Longrightarrow> suffix s' s"
proof (induction r s arbitrary: s' rule: paths.induct)
  case (5 a b s)
  from 5(3) obtain t where t: "t \<in> set (paths a s)" "s' \<in> set (paths b t)" by auto
  from 5(1)[OF t(1)] 5(2)[OF t] show ?case by (rule suffix_order.trans[rotated])
next
  case (8 a s)
  show ?case
  proof (cases "s' = s")
    case True then show ?thesis by simp
  next
    case False
    with 8(3) obtain t where t: "t \<in> set (paths a s)" "length t < length s"
      "s' \<in> set (paths (Star a) t)" unfolding paths_Star_iff[of s' a s] by blast
    from 8(1)[OF t(1)] 8(2)[OF t] show ?thesis by (rule suffix_order.trans[rotated])
  qed
qed (auto split: list.splits if_splits simp: suffix_Cons)

lemma paths_progress: "s' \<in> set (paths r s) \<Longrightarrow> \<not> nullable r \<Longrightarrow> length s' < length s"
proof (induction r s arbitrary: s' rule: paths.induct)
  case (5 a b s)
  from 5(3) obtain t where t: "t \<in> set (paths a s)" "s' \<in> set (paths b t)" by auto
  have le1: "length t \<le> length s" using paths_suffix[OF t(1)] by (rule suffix_length_le)
  have le2: "length s' \<le> length t" using paths_suffix[OF t(2)] by (rule suffix_length_le)
  from 5(4) consider "\<not> nullable a" | "\<not> nullable b" by auto
  then show ?case
  proof cases
    case 1 with 5(1)[OF t(1)] le2 show ?thesis by simp
  next
    case 2 with 5(2)[OF t(1) t(2)] le1 show ?thesis by simp
  qed
qed (auto split: list.splits if_splits)

lemma re_match_prefix: "re_match p s = Some m \<Longrightarrow> prefix (group0 m) s"
  by (auto simp: re_match_def take_is_prefix split: list.splits)

lemma re_match_nonempty:
  assumes "re_match p s = Some m" "\<not> nullable (Seq (pre p) (Seq (grp p) (post p)))"
  shows "group0 m \<noteq> []"
proof -
  from assms(1) obtain s1 s2 s3 rest where
    eq: "[(s1, s2, s3). s1 \<leftarrow> paths (pre p) s, s2 \<leftarrow> paths (grp p) s1, s3 \<leftarrow> paths (post p) s2]
           = (s1, s2, s3) # rest"
    and m: "group0 m = take (length s - length s3) s"
    by (auto simp: re_match_def split: list.splits)
  have "(s1, s2, s3) \<in> set [(s1, s2, s3). s1 \<leftarrow> paths (pre p) s, s2 \<leftarrow> paths (grp p) s1, s3 \<leftarrow> paths (post p) s2]"
    unfolding eq by simp
  then have "s3 \<in> set (paths (Seq (pre p) (Seq (grp p) (post p))) s)"
    by auto
  from paths_progress[OF this assms(2)] have "length s3 < length s" .
  with m show ?thesis by (cases s) auto
qed

lemma rules_not_nullable:
  "rule \<in> set rules \<Longrightarrow> \<not> nullable (Seq (pre (snd rule)) (Seq (grp (snd rule)) (post (snd rule))))"
  by (auto simp: rules_def only_def)

lemma first_match_Some:
  "first_match rs s = Some (rule, m) \<Longrightarrow> rule \<in> set rs \<and> re_match (snd rule) s = Some m"
  by (induction rs) (auto split: option.splits)

lemma first_match_None:
  "first_match rs s = None \<longleftrightarrow> (\<forall>rule \<in> set rs. re_match (snd rule) s = None)"
  by (induction rs) (auto split: option.splits)

lemma first_match_rules:
  assumes "first_match rules s = Some (rule, m)"
  shows "prefix (group0 m) s" "group0 m \<noteq> []"
proof -
  from first_match_Some[OF assms] have r: "rule \<in> set rules" "re_match (snd rule) s = Some m"
    by simp_all
  show "prefix (group0 m) s" using r(2) by (rule re_match_prefix)
  show "group0 m \<noteq> []" using r(2) rules_not_nullable[OF r(1)] by (rule re_match_nonempty)
qed

lemma lex_loop_step:
  assumes "pos < length src" "first_match rules (drop pos src) = Some (rule, m)"
  shows "lex_loop src pos out = lex_loop src (pos + length (group0 m)) (out @ emit rule m pos)"
  by (subst lex_loop.simps) (simp add: assms)

lemma lex_loop_stuck:
  assumes "pos < length src" "first_match rules (drop pos src) = None"
  shows "lex_loop src pos out = Some (out, Some (unrecognized pos))"
  by (subst lex_loop.simps) (simp add: assms)

lemma lex_loop_end:
  assumes "\<not> pos < length src"
  shows "lex_loop src pos out = Some (out, None)"
  by (subst lex_loop.simps) (simp add: assms)

lemma run_lex_loop:
  "run src pos ms = Some p \<Longrightarrow> lex_loop src pos out = lex_loop src p (out @ emitted pos ms)"
proof (induction ms arbitrary: pos out)
  case Nil
  then show ?case by simp
next
  case (Cons a ms)
  obtain rule m where a: "a = (rule, m)" by (cases a)
  from Cons.prems a have st: "pos < length src" "first_match rules (drop pos src) = Some (rule, m)"
    and rest: "run src (pos + length (group0 m)) ms = Some p"
    by (auto split: if_splits)
  show ?case
    unfolding a lex_loop_step[OF st] Cons.IH[OF rest] by simp
qed

lemma run_bound:
  "run src pos ms = Some p \<Longrightarrow> pos \<le> length src \<Longrightarrow>
     pos \<le> p \<and> p \<le> length src \<and> drop pos src = concat (map (group0 \<circ> snd) ms) @ drop p src"
proof (induction ms arbitrary: pos)
  case Nil
  then show ?case by simp
next
  case (Cons a ms)
  obtain rule m where a: "a = (rule, m)" by (cases a)
  from Cons.prems a have st: "pos < length src" "first_match rules (drop pos src) = Some (rule, m)"
    and rest: "run src (pos + length (group0 m)) ms = Some p"
    by (auto split: if_splits)
  from first_match_rules(1)[OF st(2)] obtain tl where tl: "drop pos src = group0 m @ tl"
    by (auto simp: prefix_def)
  then have "length (drop pos src) = length (group0 m) + length tl" by simp
  then have le: "pos + length (group0 m) \<le> length src" using st(1) by simp
  have d: "drop (pos + length (group0 m)) src = tl"
    using tl by (metis add.commute append_eq_conv_conj drop_drop)
  from Cons.IH[OF rest le] d tl show ?case unfolding a by simp
qed

lemma run_complete:
  "\<exists>ms p. run src pos ms = Some p \<and>
      (\<not> p < length src \<or> first_match rules (drop p src) = None)"
proof (induction "length src - pos" arbitrary: pos rule: less_induct)
  case less
  show ?case
  proof (cases "pos < length src")
    case False
    then have "run src pos [] = Some pos \<and> \<not> pos < length src" by simp
    then show ?thesis by blast
  next
    case True
    show ?thesis
    proof (cases "first_match rules (drop pos src)")
      case None
      then have "run src pos [] = Some pos \<and> first_match rules (drop pos src) = None" by simp
      then show ?thesis by blast
    next
      case (Some a)
      obtain rule m where a: "a = (rule, m)" by (cases a)
      from Some a have fm: "first_match rules (drop pos src) = Some (rule, m)" by simp
      from first_match_rules(2)[OF fm] have "0 < length (group0 m)" by (cases "group0 m") simp_all
      with True have "length src - (pos + length (group0 m)) < length src - pos" by linarith
      from less[OF this] obtain ms p where
        r: "run src (pos + length (group0 m)) ms = Some p"
           "\<not> p < length src \<or> first_match rules (drop p src) = None" by blast
      from r(1) True fm have "run src pos ((rule, m) # ms) = Some p" by simp
      with r(2) show ?thesis by blast
    qed
  qed
qed

lemma emitted_positions:
  "run src pos ms = Some p \<Longrightarrow> t \<in> set (emitted pos ms) \<Longrightarrow> pos \<le> position t"
proof (induction ms arbitrary: pos)
  case Nil
  then show ?case by simp
next
  case (Cons a ms)
  obtain rule m where a: "a = (rule, m)" by (cases a)
  from Cons.prems(1) a have rest: "run src (pos + length (group0 m)) ms = Some p"
    by (auto split: if_splits)
  from Cons.prems(2) a consider "t \<in> set (emit rule m pos)" | "t \<in> set (emitted (pos + length (group0 m)) ms)"
    by auto
  then show ?case
  proof cases
    case 1
    then show ?thesis by (cases rule; cases "fst rule") (auto simp: Token_def split: if_splits)
  next
    case 2
    from Cons.IH[OF rest 2] show ?thesis by simp
  qed
qed

lemma emitted_sorted:
  "run src pos ms = Some p \<Longrightarrow> sorted (map position (emitted pos ms))"
proof (induction ms arbitrary: pos)
  case Nil
  then show ?case by simp
next
  case (Cons a ms)
  obtain rule m where a: "a = (rule, m)" by (cases a)
  from Cons.prems(1) a have rest: "run src (pos + length (group0 m)) ms = Some p"
    by (auto split: if_splits)
  have hd: "\<forall>t \<in> set (emit rule m pos). position t = pos"
    by (cases rule; cases "fst rule") (auto simp: Token_def split: if_splits)
  have tl: "\<forall>t \<in> set (emitted (pos + length (group0 m)) ms). pos \<le> position t"
    using emitted_positions[OF rest] by fastforce
  have "sorted (map position (emit rule m pos))"
    by (cases rule; cases "fst rule") (auto simp: Token_def split: if_splits)
  with Cons.IH[OF rest] hd tl show ?case
    unfolding a by (auto simp: sorted_append)
qed

lemma paths_Star_Dot_Cons:
  "paths (Star Dot) (c # r) = (if c \<noteq> CHR 0x0A then paths (Star Dot) r else []) @ [c # r]"
  by (subst paths.simps(8)) simp

lemma paths_Star_Dot_Nil: "paths (Star Dot) [] = [[]]"
  by (subst paths.simps(8)) simp

lemma closers_Nil: "closers [] = []"
  by (simp add: closers_def paths_Star_Dot_Nil)

lemma closers_Cons:
  "closers (c # r) =
     (if c \<noteq> CHR 0x0A then closers r else []) @ (if c = CHR 0x22 then [(c # r, r)] else [])"
  by (simp add: closers_def paths_Star_Dot_Cons)

lemma closers_none:
  "CHR 0x22 \<notin> set (takeWhile (\<lambda>c. c \<noteq> CHR 0x0A) s) \<Longrightarrow> closers s = []"
  by (induction s) (auto simp: closers_Nil closers_Cons split: if_splits)

lemma closers_last:
  assumes "CHR 0x0A \<notin> set inner" "CHR 0x22 \<notin> set (takeWhile (\<lambda>c. c \<noteq> CHR 0x0A) rest)"
  shows "\<exists>xs. closers (inner @ CHR 0x22 # rest) = (CHR 0x22 # rest, rest) # xs"
  using assms(1)
proof (induction inner)
  case Nil
  show ?case by (simp add: closers_Cons closers_none[OF assms(2)])
next
  case (Cons c inner)
  then obtain xs where "closers (inner @ CHR 0x22 # rest) = (CHR 0x22 # rest, rest) # xs"
    by auto
  with Cons.prems show ?case by (auto simp: closers_Cons)
qed

lemma string_triples:
  "[(s1, s2, s3). s1 \<leftarrow> paths (Lit (CHR 0x22)) (CHR 0x22 # s), s2 \<leftarrow> paths (Star Dot) s1,
       s3 \<leftarrow> paths (Lit (CHR 0x22)) s2] = map (\<lambda>(s2, s3). (s, s2, s3)) (closers s)"
  by (simp add: closers_def map_concat comp_def)

lemma re_match_string:
  "re_match \<lparr>pre = Lit (CHR 0x22), grp = Star Dot, post = Lit (CHR 0x22)\<rparr> (CHR 0x22 # s) =
     (case closers s of [] \<Rightarrow> None
      | (s2, s3) # _ \<Rightarrow> Some \<lparr>group0 = take (Suc (length s) - length s3) (CHR 0x22 # s),
                                  group1 = take (length s - length s2) s\<rparr>)"
  unfolding re_match_def pattern.simps string_triples
  by (cases "closers s") (auto)

lemma paths_Star_Cls:
  "s' \<in> set (paths (Star (Cls items)) s) \<Longrightarrow>
     \<exists>u. s = u @ s' \<and> (\<forall>c \<in> set u. \<exists>i \<in> set items. in_item i c)"
proof (induction s arbitrary: s')
  case Nil
  then show ?case unfolding paths_Star_iff[of s' "Cls items" "[]"] by simp
next
  case (Cons x r)
  from Cons.prems consider "s' = x # r"
    | "(\<exists>i \<in> set items. in_item i x)" "s' \<in> set (paths (Star (Cls items)) r)"
    unfolding paths_Star_iff[of s' "Cls items" "x # r"] by (auto split: if_splits)
  then show ?case
  proof cases
    case 1
    then show ?thesis by simp
  next
    case 2
    from Cons.IH[OF 2(2)] obtain u where u: "r = u @ s'" "\<forall>c \<in> set u. \<exists>i \<in> set items. in_item i c"
      by blast
    with 2(1) have "x # r = (x # u) @ s' \<and> (\<forall>c \<in> set (x # u). \<exists>i \<in> set items. in_item i c)"
      by simp
    then show ?thesis by blast
  qed
qed

lemma paths_Plus_Cls:
  assumes "s' \<in> set (paths (Plus (Cls items)) s)"
  shows "\<exists>u. s = u @ s' \<and> u \<noteq> [] \<and> (\<forall>c \<in> set u. \<exists>i \<in> set items. in_item i c)"
proof -
  from assms obtain x r where s: "s = x # r" and x: "\<exists>i \<in> set items. in_item i x"
    and r: "s' \<in> set (paths (Star (Cls items)) r)"
    by (cases s) (auto split: if_splits)
  from paths_Star_Cls[OF r] obtain u where "r = u @ s'" "\<forall>c \<in> set u. \<exists>i \<in> set items. in_item i c"
    by blast
  with s x have "s = (x # u) @ s' \<and> x # u \<noteq> [] \<and> (\<forall>c \<in> set (x # u). \<exists>i \<in> set items. in_item i c)"
    by simp
  then show ?thesis by blast
qed

lemma paths_number:
  assumes "s' \<in> set (paths (Seq (Opt (Lit (CHR ''-''))) (Plus (Cls items))) s)"
  shows "\<exists>sign u. s = sign @ u @ s' \<and> (sign = [] \<or> sign = ''-'') \<and> u \<noteq> [] \<and>
           (\<forall>c \<in> set u. \<exists>i \<in> set items. in_item i c)"
proof -
  from assms obtain t where t: "t \<in> set (paths (Opt (Lit (CHR ''-''))) s)"
    "s' \<in> set (paths (Plus (Cls items)) t)" by auto
  from paths_Plus_Cls[OF t(2)] obtain u where u: "t = u @ s'" "u \<noteq> []"
    "\<forall>c \<in> set u. \<exists>i \<in> set items. in_item i c" by blast
  from t(1) consider "s = t" | "s = ''-'' @ t" by (cases s) (auto split: if_splits)
  then show ?thesis
  proof cases
    case 1
    with u have "s = [] @ u @ s' \<and> ([] = [] \<or> [] = ''-'') \<and> u \<noteq> [] \<and>
      (\<forall>c \<in> set u. \<exists>i \<in> set items. in_item i c)" by simp
    then show ?thesis by blast
  next
    case 2
    with u have "s = ''-'' @ u @ s' \<and> (''-'' = [] \<or> ''-'' = ''-'') \<and> u \<noteq> [] \<and>
      (\<forall>c \<in> set u. \<exists>i \<in> set items. in_item i c)" by simp
    then show ?thesis by blast
  qed
qed

lemma re_match_only:
  "re_match (only r) s =
     (case paths r s of [] \<Rightarrow> None
      | s3 # _ \<Rightarrow> Some \<lparr>group0 = take (length s - length s3) s,
                         group1 = take (length s - length s3) s\<rparr>)"
  by (cases "paths r s") (simp_all add: re_match_def only_def)

lemma re_match_number:
  assumes "re_match (only (Seq (Opt (Lit (CHR ''-''))) (Plus (Cls [CDigit, CChar (CHR ''.'')])))) s = Some m"
  shows "\<exists>sign u. group0 m = sign @ u \<and> (sign = [] \<or> sign = ''-'') \<and> u \<noteq> [] \<and>
           (\<forall>c \<in> set u. is_digit c \<or> c = CHR ''.'')"
proof -
  let ?r = "Seq (Opt (Lit (CHR ''-''))) (Plus (Cls [CDigit, CChar (CHR ''.'')]))"
  from assms obtain s3 rest where p: "paths ?r s = s3 # rest"
    and m: "group0 m = take (length s - length s3) s"
    unfolding re_match_only by (auto split: list.splits)
  have "s3 \<in> set (paths ?r s)" unfolding p by simp
  from paths_number[OF this] obtain sign u where
    su: "s = sign @ u @ s3" "sign = [] \<or> sign = ''-''" "u \<noteq> []"
        "\<forall>c \<in> set u. \<exists>i \<in> set [CDigit, CChar (CHR ''.'')]. in_item i c" by blast
  from su(1) have "take (length s - length s3) s = sign @ u" by simp
  with m su show ?thesis by auto
qed

section \<open>Properties of the validator\<close>

text \<open>
  C3. For every input string, \<^verbatim>\<open>validate(doc)\<close> returns \<^verbatim>\<open>None\<close> and raises nothing,
  since its body is only a docstring; the entry point, which passes the whole of standard
  input to it, does the same. Every document is accepted, unbalanced ones included.
\<close>

theorem validate_returns_nothing:
  "validate doc = Inr () \<and> main doc = Inr ()"
  by (simp add: validate_def main_def)

text \<open>
  C4. For every document whose square and curly brackets are balanced and correctly
  nested, validation succeeds: it returns nothing and raises no error.
\<close>

theorem validate_balanced:
  "balanced_document doc \<Longrightarrow> validate doc = Inr ()"
  by (simp add: validate_def)

text \<open>The documents of the docstring are balanced, and the last of them is accepted.\<close>

theorem validate_balanced_witness:
  \<open>balanced_document '''' \<and> balanced_document ''{}'' \<and> balanced_document ''[]''
   \<and> balanced_document ''[{}]'' \<and> balanced_document ''[1,2,3]''
   \<and> balanced_document ''{"numbers":[1,2,3]}'' \<and> validate ''{"numbers":[1,2,3]}'' = Inr ()\<close>
proof -
  have h: \<open>balanced_document ''{"numbers":[1,2,3]}''\<close> by code_simp
  have a: "balanced_document ''''" by code_simp
  have b: "balanced_document ''{}''" by code_simp
  have c: "balanced_document ''[]''" by code_simp
  have d: "balanced_document ''[{}]''" by code_simp
  have e: "balanced_document ''[1,2,3]''" by code_simp
  from a b c d e h validate_balanced[OF h] show ?thesis by (intro conjI)
qed

text \<open>
  C1. The documents \<^verbatim>\<open>{\<close> and \<^verbatim>\<open>[\<close> lex to a single opening token that nothing closes, and
  \<^verbatim>\<open>validate\<close> returns on both without raising, where its docstring expects
  \<^verbatim>\<open>ValueError: No closing token for ('open_curly', '{', 0)\<close> and the like.
\<close>

theorem validate_unclosed_returns:
  "lex ''{'' = Some ([Token ''open_curly'' ''{'' 0], None) \<and> validate ''{'' = Inr ()
   \<and> lex ''['' = Some ([Token ''open_square'' ''['' 0], None) \<and> validate ''['' = Inr ()"
proof -
  have a: "lex ''{'' = Some ([Token ''open_curly'' ''{'' 0], None)" by code_simp
  have b: "lex ''['' = Some ([Token ''open_square'' ''['' 0], None)" by code_simp
  from a b show ?thesis by (simp add: validate_def)
qed

text \<open>
  C2. In \<^verbatim>\<open>["numbers":{1,2,3]}\<close> the token at position 17 is a \<^verbatim>\<open>close_square\<close> met while an
  \<^verbatim>\<open>open_curly\<close> is the innermost open bracket, and \<^verbatim>\<open>validate\<close> returns on it without
  raising, as it does on \<^verbatim>\<open>]\<close> and \<^verbatim>\<open>[}\<close>, where its docstring expects
  \<^verbatim>\<open>ValueError: No opening token for ('close_square', ']', 17)\<close>.
\<close>

theorem validate_orphan_closer_returns:
  \<open>lex ''["numbers":{1,2,3]}'' =
     Some ([Token ''open_square'' ''['' 0, Token ''string'' ''numbers'' 1,
            Token ''assignment'' '':'' 10, Token ''open_curly'' ''{'' 11, Token ''number'' ''1'' 12,
            Token ''separator'' '','' 13, Token ''number'' ''2'' 14, Token ''separator'' '','' 15,
            Token ''number'' ''3'' 16, Token ''close_square'' '']'' 17,
            Token ''close_curly'' ''}'' 18], None)
   \<and> validate ''["numbers":{1,2,3]}'' = Inr ()
   \<and> validate '']'' = Inr () \<and> validate ''[}'' = Inr ()\<close>
proof -
  have \<open>lex ''["numbers":{1,2,3]}'' =
     Some ([Token ''open_square'' ''['' 0, Token ''string'' ''numbers'' 1,
            Token ''assignment'' '':'' 10, Token ''open_curly'' ''{'' 11, Token ''number'' ''1'' 12,
            Token ''separator'' '','' 13, Token ''number'' ''2'' 14, Token ''separator'' '','' 15,
            Token ''number'' ''3'' 16, Token ''close_square'' '']'' 17,
            Token ''close_curly'' ''}'' 18], None)\<close> by code_simp
  then show ?thesis by (simp add: validate_def)
qed

section \<open>Properties of the lexer\<close>

text \<open>
  C5. \<^verbatim>\<open>lex('[1, "2"]')\<close> yields exactly five tokens, in this order: the opening bracket at
  0, the number 1 at 1, the separator at 2, the string 2 at 4 and the closing bracket at
  7. The blank at position 3 yields no token; the text of the string token is what stands
  between the quotes, and its position is that of the opening quote.
\<close>

theorem lex_example_tokens:
  \<open>lex ''[1, "2"]'' =
     Some ([Token ''open_square'' ''['' 0, Token ''number'' ''1'' 1, Token ''separator'' '','' 2,
            Token ''string'' ''2'' 4, Token ''close_square'' '']'' 7], None)\<close>
  by code_simp


text \<open>
  C6. When no rule matches at the cursor, the scan stops there with
  \<^verbatim>\<open>ValueError: Unrecognized token starting at position <p>\<close>, \<open>p\<close> being the cursor, and
  nothing is skipped: the tokens yielded before are those of the iterations that led to
  \<open>p\<close>. This holds of the loop in any state and of \<^verbatim>\<open>lex\<close> as a whole; in particular
  \<^verbatim>\<open>lex('[1, --2]')\<close> fails at position 4.
\<close>

theorem lex_unrecognized:
  "(\<forall>pos out. pos < length src \<longrightarrow>
       (\<forall>rule \<in> set rules. re_match (snd rule) (drop pos src) = None) \<longrightarrow>
       lex_loop src pos out =
         Some (out, Some (ValueError (''Unrecognized token starting at position '' @ str_nat pos))))
   \<and> (\<forall>ms p. run src 0 ms = Some p \<longrightarrow> p < length src \<longrightarrow>
       (\<forall>rule \<in> set rules. re_match (snd rule) (drop p src) = None) \<longrightarrow>
       lex src =
         Some (emitted 0 ms,
               Some (ValueError (''Unrecognized token starting at position '' @ str_nat p))))
   \<and> lex ''[1, --2]'' =
       Some ([Token ''open_square'' ''['' 0, Token ''number'' ''1'' 1, Token ''separator'' '','' 2],
             Some (ValueError ''Unrecognized token starting at position 4''))"
proof (intro conjI allI impI)
  fix pos out
  assume "pos < length src" "\<forall>rule \<in> set rules. re_match (snd rule) (drop pos src) = None"
  then show "lex_loop src pos out =
      Some (out, Some (ValueError (''Unrecognized token starting at position '' @ str_nat pos)))"
    using lex_loop_stuck[of pos src out] by (simp add: first_match_None unrecognized_def)
next
  fix ms p
  assume r: "run src 0 ms = Some p" and p: "p < length src"
    and n: "\<forall>rule \<in> set rules. re_match (snd rule) (drop p src) = None"
  from n have "first_match rules (drop p src) = None" by (simp add: first_match_None)
  from lex_loop_stuck[OF p this] run_lex_loop[OF r, of "[]"]
  show "lex src =
      Some (emitted 0 ms, Some (ValueError (''Unrecognized token starting at position '' @ str_nat p)))"
    by (simp add: lex_def unrecognized_def)
next
  show "lex ''[1, --2]'' =
       Some ([Token ''open_square'' ''['' 0, Token ''number'' ''1'' 1, Token ''separator'' '','' 2],
             Some (ValueError ''Unrecognized token starting at position 4''))"
    by code_simp
qed

text \<open>
  On \<^verbatim>\<open>1--2\<close> the number rule matches \<^verbatim>\<open>1\<close>, no rule matches at position 1, and the scan
  stops there after the one token.
\<close>

theorem lex_unrecognized_witness:
  "run ''1--2'' 0 [(rules ! 8, \<lparr>group0 = ''1'', group1 = ''1''\<rparr>)] = Some 1
   \<and> 1 < length ''1--2''
   \<and> first_match rules (drop 1 ''1--2'') = None
   \<and> lex ''1--2'' =
       Some ([Token ''number'' ''1'' 0],
             Some (ValueError ''Unrecognized token starting at position 1''))"
proof -
  let ?ms = "[(rules ! 8, \<lparr>group0 = ''1'', group1 = ''1''\<rparr>)]"
  have r: "run ''1--2'' 0 ?ms = Some 1" by code_simp
  have p: "1 < length ''1--2''" by simp
  have n: "first_match rules (drop 1 ''1--2'') = None" by code_simp
  then have n': "\<forall>rule \<in> set rules. re_match (snd rule) (drop 1 ''1--2'') = None"
    by (simp add: first_match_None)
  have e: "emitted 0 ?ms = [Token ''number'' ''1'' 0]" by code_simp
  have s: "str_nat 1 = ''1''" by code_simp
  from lex_unrecognized[of "''1--2''"] have
    "\<forall>ms p. run ''1--2'' 0 ms = Some p \<longrightarrow> p < length ''1--2'' \<longrightarrow>
       (\<forall>rule \<in> set rules. re_match (snd rule) (drop p ''1--2'') = None) \<longrightarrow>
       lex ''1--2'' =
         Some (emitted 0 ms,
               Some (ValueError (''Unrecognized token starting at position '' @ str_nat p)))"
    by (rule conjunct1[OF conjunct2])
  with r p n' have "lex ''1--2'' =
      Some (emitted 0 ?ms, Some (ValueError (''Unrecognized token starting at position '' @ str_nat 1)))"
    by blast
  then have "lex ''1--2'' =
       Some ([Token ''number'' ''1'' 0],
             Some (ValueError ''Unrecognized token starting at position 1''))"
    unfolding e s by simp
  with r p n show ?thesis by (intro conjI)
qed

text \<open>
  C7. When \<^verbatim>\<open>lex\<close> completes without error, the positions of the tokens it yields never
  decrease, and the matched texts of the iterations of its loop, discarded whitespace
  included, each starting where the one before ended, concatenate to the source: no
  character is left out and none is matched twice.
\<close>

theorem lex_span_coverage:
  assumes "lex src = Some (toks, None)"
  shows "sorted (map position toks) \<and>
         (\<exists>ms. run src 0 ms = Some (length src) \<and> emitted 0 ms = toks \<and>
               concat (map (group0 \<circ> snd) ms) = src)"
proof -
  from run_complete[of src 0] obtain ms p where
    r: "run src 0 ms = Some p"
    and e: "\<not> p < length src \<or> first_match rules (drop p src) = None" by blast
  from run_lex_loop[OF r, of "[]"] have l: "lex src = lex_loop src p (emitted 0 ms)"
    by (simp add: lex_def)
  have np: "\<not> p < length src"
  proof
    assume p: "p < length src"
    with e have "first_match rules (drop p src) = None" by simp
    from lex_loop_stuck[OF p this] l assms show False by simp
  qed
  from run_bound[OF r] have b: "p \<le> length src" "src = concat (map (group0 \<circ> snd) ms) @ drop p src"
    by simp_all
  with np have pl: "p = length src" by simp
  from lex_loop_end[OF np] l assms have t: "emitted 0 ms = toks" by simp
  from b(2) pl have c: "concat (map (group0 \<circ> snd) ms) = src" by simp
  from emitted_sorted[OF r] t have "sorted (map position toks)" by simp
  with r pl t c show ?thesis by blast
qed

text \<open>The document \<^verbatim>\<open>[1, "2"]\<close> lexes without error, with a blank discarded at position 3.\<close>

theorem lex_span_coverage_witness:
  \<open>lex ''[1, "2"]'' =
     Some ([Token ''open_square'' ''['' 0, Token ''number'' ''1'' 1, Token ''separator'' '','' 2,
            Token ''string'' ''2'' 4, Token ''close_square'' '']'' 7], None)
   \<and> sorted (map position
        [Token ''open_square'' ''['' 0, Token ''number'' ''1'' 1, Token ''separator'' '','' 2,
         Token ''string'' ''2'' 4, Token ''close_square'' '']'' 7])
   \<and> (\<exists>ms. run ''[1, "2"]'' 0 ms = Some (length ''[1, "2"]'')
         \<and> emitted 0 ms =
             [Token ''open_square'' ''['' 0, Token ''number'' ''1'' 1, Token ''separator'' '','' 2,
              Token ''string'' ''2'' 4, Token ''close_square'' '']'' 7]
         \<and> concat (map (group0 \<circ> snd) ms) = ''[1, "2"]'')\<close>
proof -
  have h: \<open>lex ''[1, "2"]'' =
     Some ([Token ''open_square'' ''['' 0, Token ''number'' ''1'' 1, Token ''separator'' '','' 2,
            Token ''string'' ''2'' 4, Token ''close_square'' '']'' 7], None)\<close> by code_simp
  show ?thesis by (rule conjI[OF h lex_span_coverage[OF h]])
qed


text \<open>
  C10. \<^verbatim>\<open>lex\<close> terminates on every input: the scan returns a result, no rule of the
  table, the whitespace rule included, can match the empty text, and an iteration that
  finds a match moves the cursor strictly forward, never beyond the end of the source.
\<close>

theorem lex_terminates:
  "(\<exists>r. lex src = Some r)
   \<and> (\<forall>rule \<in> set rules. \<forall>s m. re_match (snd rule) s = Some m \<longrightarrow> group0 m \<noteq> [])
   \<and> (\<forall>pos rule m. pos < length src \<longrightarrow> first_match rules (drop pos src) = Some (rule, m) \<longrightarrow>
         pos < pos + length (group0 m) \<and> pos + length (group0 m) \<le> length src)"
proof (intro conjI ballI allI impI)
  from run_complete[of src 0] obtain ms p where
    r: "run src 0 ms = Some p"
    and e: "\<not> p < length src \<or> first_match rules (drop p src) = None" by blast
  from run_lex_loop[OF r, of "[]"] have l: "lex src = lex_loop src p (emitted 0 ms)"
    by (simp add: lex_def)
  show "\<exists>r. lex src = Some r"
  proof (cases "p < length src")
    case True
    with e have "first_match rules (drop p src) = None" by simp
    from lex_loop_stuck[OF True this] l show ?thesis by simp
  next
    case False
    from lex_loop_end[OF False] l show ?thesis by simp
  qed
next
  fix rule s m
  assume "rule \<in> set rules" "re_match (snd rule) s = Some m"
  then show "group0 m \<noteq> []" using rules_not_nullable re_match_nonempty by blast
next
  fix pos rule m
  assume p: "pos < length src" and f: "first_match rules (drop pos src) = Some (rule, m)"
  from first_match_rules(2)[OF f] show "pos < pos + length (group0 m)" by simp
  from first_match_rules(1)[OF f] obtain tl where "drop pos src = group0 m @ tl"
    by (auto simp: prefix_def)
  then have "length (drop pos src) = length (group0 m) + length tl" by simp
  with p show "pos + length (group0 m) \<le> length src" by simp
qed

text \<open>
  On \<^verbatim>\<open>[1, --2]\<close> the scan returns; at its position 1 the number rule matches one
  character; and the whitespace rule matches the two blanks that start a text.
\<close>

theorem lex_terminates_witness:
  "(\<exists>r. lex ''[1, --2]'' = Some r)
   \<and> rules ! 9 \<in> set rules
   \<and> re_match (snd (rules ! 9)) ''  x'' = Some \<lparr>group0 = ''  '', group1 = ''  ''\<rparr>
   \<and> group0 \<lparr>group0 = ''  '', group1 = ''  ''\<rparr> \<noteq> []
   \<and> 1 < length ''[1, --2]''
   \<and> first_match rules (drop 1 ''[1, --2]'') = Some (rules ! 8, \<lparr>group0 = ''1'', group1 = ''1''\<rparr>)
   \<and> 1 < 1 + length (group0 \<lparr>group0 = ''1'', group1 = ''1''\<rparr>)
   \<and> 1 + length (group0 \<lparr>group0 = ''1'', group1 = ''1''\<rparr>) \<le> length ''[1, --2]''"
proof -
  note T = lex_terminates[of "''[1, --2]''"]
  have a: "\<exists>r. lex ''[1, --2]'' = Some r" by (rule conjunct1[OF T])
  have B: "\<forall>rule \<in> set rules. \<forall>s m. re_match (snd rule) s = Some m \<longrightarrow> group0 m \<noteq> []"
    by (rule conjunct1[OF conjunct2[OF T]])
  have C: "\<forall>pos rule m. pos < length ''[1, --2]'' \<longrightarrow>
      first_match rules (drop pos ''[1, --2]'') = Some (rule, m) \<longrightarrow>
      pos < pos + length (group0 m) \<and> pos + length (group0 m) \<le> length ''[1, --2]''"
    by (rule conjunct2[OF conjunct2[OF T]])
  have r9: "rules ! 9 \<in> set rules" by (simp add: rules_def)
  have m9: "re_match (snd (rules ! 9)) ''  x'' = Some \<lparr>group0 = ''  '', group1 = ''  ''\<rparr>"
    by code_simp
  from B r9 m9 have b: "group0 \<lparr>group0 = ''  '', group1 = ''  ''\<rparr> \<noteq> []" by blast
  have p: "1 < length ''[1, --2]''" by simp
  have f: "first_match rules (drop 1 ''[1, --2]'') =
      Some (rules ! 8, \<lparr>group0 = ''1'', group1 = ''1''\<rparr>)" by code_simp
  from C p f have c: "1 < 1 + length (group0 \<lparr>group0 = ''1'', group1 = ''1''\<rparr>) \<and>
      1 + length (group0 \<lparr>group0 = ''1'', group1 = ''1''\<rparr>) \<le> length ''[1, --2]''" by blast
  from a r9 m9 b p f c show ?thesis by (intro conjI) blast+
qed

text \<open>
  C8, as the claim states it: \<^verbatim>\<open>1--2\<close> would lex as one number token with text \<^verbatim>\<open>1--2\<close>.
  It does not: the number rule matches \<^verbatim>\<open>1\<close> alone and nothing matches at position 1.
\<close>

theorem number_rule_one_token_counterexample:
  "lex ''1--2'' = Some ([Token ''number'' ''1'' 0],
                        Some (ValueError ''Unrecognized token starting at position 1''))
   \<and> lex ''1--2'' \<noteq> Some ([Token ''number'' ''1--2'' 0], None)"
proof -
  have a: "lex ''1--2'' = Some ([Token ''number'' ''1'' 0],
                        Some (ValueError ''Unrecognized token starting at position 1''))"
    by code_simp
  then show ?thesis by simp
qed

text \<open>
  C8, amended. The number rule permits several \<^verbatim>\<open>.\<close> within a single match, and a \<^verbatim>\<open>-\<close>
  only as the first character of the match: after its first character a match of the
  number rule holds digits and dots only. So \<^verbatim>\<open>1..2\<close> lexes as one number token whose
  text is \<^verbatim>\<open>1..2\<close>, whereas on \<^verbatim>\<open>1--2\<close> the token is \<^verbatim>\<open>1\<close> and the scan fails at position 1.
\<close>

theorem number_rule_dots_and_sign:
  "(\<forall>rule \<in> set rules. fst rule = Some ''number'' \<longrightarrow>
      (\<forall>s m. re_match (snd rule) s = Some m \<longrightarrow>
         CHR ''-'' \<notin> set (tl (group0 m)) \<and> (\<forall>c \<in> set (tl (group0 m)). is_digit c \<or> c = CHR ''.'')))
   \<and> lex ''1..2'' = Some ([Token ''number'' ''1..2'' 0], None)
   \<and> lex ''1--2'' = Some ([Token ''number'' ''1'' 0],
                          Some (ValueError ''Unrecognized token starting at position 1''))"
proof -
  have gen: "CHR ''-'' \<notin> set (tl (group0 m)) \<and> (\<forall>c \<in> set (tl (group0 m)). is_digit c \<or> c = CHR ''.'')"
    if "rule \<in> set rules" "fst rule = Some ''number''" "re_match (snd rule) s = Some m"
    for rule s m
  proof -
    from that have
      "re_match (only (Seq (Opt (Lit (CHR ''-''))) (Plus (Cls [CDigit, CChar (CHR ''.'')])))) s
        = Some m" by (auto simp: rules_def)
    from re_match_number[OF this] obtain sign u where
      g: "group0 m = sign @ u" "sign = [] \<or> sign = ''-''" "u \<noteq> []"
         "\<forall>c \<in> set u. is_digit c \<or> c = CHR ''.''" by blast
    then have sub: "set (tl (group0 m)) \<subseteq> set u" by (cases u) auto
    with g(4) have all: "\<forall>c \<in> set (tl (group0 m)). is_digit c \<or> c = CHR ''.''" by blast
    have "\<not> is_digit (CHR ''-'')" by (simp add: is_digit_def)
    with all have "CHR ''-'' \<notin> set (tl (group0 m))" by blast
    with all show ?thesis by simp
  qed
  have dots: "lex ''1..2'' = Some ([Token ''number'' ''1..2'' 0], None)" by code_simp
  have sign: "lex ''1--2'' = Some ([Token ''number'' ''1'' 0],
                          Some (ValueError ''Unrecognized token starting at position 1''))"
    by code_simp
  from gen dots sign show ?thesis by blast
qed

text \<open>The number rule matches \<^verbatim>\<open>-1.5\<close> at the start of \<^verbatim>\<open>-1.5-2\<close>, and stops before the second \<^verbatim>\<open>-\<close>.\<close>

theorem number_rule_dots_and_sign_witness:
  "rules ! 8 \<in> set rules \<and> fst (rules ! 8) = Some ''number''
   \<and> re_match (snd (rules ! 8)) ''-1.5-2'' = Some \<lparr>group0 = ''-1.5'', group1 = ''-1.5''\<rparr>
   \<and> CHR ''-'' \<notin> set (tl (group0 \<lparr>group0 = ''-1.5'', group1 = ''-1.5''\<rparr>))"
proof -
  have G: "\<forall>rule \<in> set rules. fst rule = Some ''number'' \<longrightarrow>
      (\<forall>s m. re_match (snd rule) s = Some m \<longrightarrow>
         CHR ''-'' \<notin> set (tl (group0 m)) \<and> (\<forall>c \<in> set (tl (group0 m)). is_digit c \<or> c = CHR ''.''))"
    by (rule conjunct1[OF number_rule_dots_and_sign])
  have r: "rules ! 8 \<in> set rules" by (simp add: rules_def)
  have n: "fst (rules ! 8) = Some ''number''" by (simp add: rules_def)
  have m: "re_match (snd (rules ! 8)) ''-1.5-2'' = Some \<lparr>group0 = ''-1.5'', group1 = ''-1.5''\<rparr>"
    by code_simp
  from G r n m have "CHR ''-'' \<notin> set (tl (group0 \<lparr>group0 = ''-1.5'', group1 = ''-1.5''\<rparr>))"
    by blast
  with r n m show ?thesis by (intro conjI)
qed

text \<open>
  C9, as the claim states it: the string match would run from the opening quote to the
  last quote of the remaining text. It does not when a line feed comes first: in the two
  lines \<^verbatim>\<open>"a"\<close> and \<^verbatim>\<open>"b"\<close> the match at the first quote is \<^verbatim>\<open>"a"\<close>, and the document
  yields two string tokens.
\<close>

theorem string_rule_whole_remainder_counterexample:
  \<open>lex (''"a"'' @ [CHR 0x0A] @ ''"b"'') =
     Some ([Token ''string'' ''a'' 0, Token ''string'' ''b'' 4], None)
   \<and> re_match (snd (rules ! 0)) (''"a"'' @ [CHR 0x0A] @ ''"b"'') =
       Some \<lparr>group0 = ''"a"'', group1 = ''a''\<rparr>
   \<and> lex (''"a"'' @ [CHR 0x0A] @ ''"b"'') \<noteq>
       Some ([Token ''string'' (''a"'' @ [CHR 0x0A] @ ''"b'') 0], None)\<close>
proof -
  have a: \<open>lex (''"a"'' @ [CHR 0x0A] @ ''"b"'') =
     Some ([Token ''string'' ''a'' 0, Token ''string'' ''b'' 4], None)\<close> by code_simp
  have b: \<open>re_match (snd (rules ! 0)) (''"a"'' @ [CHR 0x0A] @ ''"b"'') =
       Some \<lparr>group0 = ''"a"'', group1 = ''a''\<rparr>\<close> by code_simp
  from a b show ?thesis by simp
qed

text \<open>
  C9, amended. The string rule matches greedily up to the end of the line: the match runs
  from the opening quote to the last quote that comes before the first line feed of the
  remaining text (the last quote of the remaining text when it has no line feed), and
  the text of the token is what stands between the two. So a document with two quoted
  strings on one line yields a single string token spanning both: \<^verbatim>\<open>lex('"a" "b"')\<close>
  yields one string token with text \<^verbatim>\<open>a" "b\<close>.
\<close>

theorem string_rule_greedy_on_line:
  \<open>(\<forall>rule \<in> set rules. fst rule = Some ''string'' \<longrightarrow>
      (\<forall>inner rest. CHR 0x0A \<notin> set inner \<longrightarrow>
         CHR 0x22 \<notin> set (takeWhile (\<lambda>c. c \<noteq> CHR 0x0A) rest) \<longrightarrow>
         re_match (snd rule) (CHR 0x22 # inner @ CHR 0x22 # rest) =
           Some \<lparr>group0 = CHR 0x22 # inner @ [CHR 0x22], group1 = inner\<rparr>))
   \<and> lex ''"a" "b"'' = Some ([Token ''string'' ''a" "b'' 0], None)\<close>
proof -
  have gen: "re_match (snd rule) (CHR 0x22 # inner @ CHR 0x22 # rest) =
           Some \<lparr>group0 = CHR 0x22 # inner @ [CHR 0x22], group1 = inner\<rparr>"
    if r: "rule \<in> set rules" "fst rule = Some ''string''"
      and i: "CHR 0x0A \<notin> set inner" "CHR 0x22 \<notin> set (takeWhile (\<lambda>c. c \<noteq> CHR 0x0A) rest)"
    for rule inner rest
  proof -
    from r have p: "snd rule = \<lparr>pre = Lit (CHR 0x22), grp = Star Dot, post = Lit (CHR 0x22)\<rparr>"
      by (auto simp: rules_def)
    from closers_last[OF i] obtain xs where
      "closers (inner @ CHR 0x22 # rest) = (CHR 0x22 # rest, rest) # xs" by blast
    then show ?thesis unfolding p re_match_string by simp
  qed
  have ex: \<open>lex ''"a" "b"'' = Some ([Token ''string'' ''a" "b'' 0], None)\<close> by code_simp
  from gen ex show ?thesis by blast
qed

text \<open>
  In the two lines \<^verbatim>\<open>"a" "b"\<close> and \<^verbatim>\<open>"c"\<close> the match at the first quote spans the two strings
  of the first line and stops there.
\<close>

theorem string_rule_greedy_on_line_witness:
  \<open>rules ! 0 \<in> set rules \<and> fst (rules ! 0) = Some ''string''
   \<and> CHR 0x0A \<notin> set ''a" "b''
   \<and> CHR 0x22 \<notin> set (takeWhile (\<lambda>c. c \<noteq> CHR 0x0A) (CHR 0x0A # ''"c"''))
   \<and> re_match (snd (rules ! 0)) (CHR 0x22 # ''a" "b'' @ CHR 0x22 # CHR 0x0A # ''"c"'') =
       Some \<lparr>group0 = CHR 0x22 # ''a" "b'' @ [CHR 0x22], group1 = ''a" "b''\<rparr>\<close>
proof -
  have G: \<open>\<forall>rule \<in> set rules. fst rule = Some ''string'' \<longrightarrow>
      (\<forall>inner rest. CHR 0x0A \<notin> set inner \<longrightarrow>
         CHR 0x22 \<notin> set (takeWhile (\<lambda>c. c \<noteq> CHR 0x0A) rest) \<longrightarrow>
         re_match (snd rule) (CHR 0x22 # inner @ CHR 0x22 # rest) =
           Some \<lparr>group0 = CHR 0x22 # inner @ [CHR 0x22], group1 = inner\<rparr>)\<close>
    by (rule conjunct1[OF string_rule_greedy_on_line])
  have r: "rules ! 0 \<in> set rules" by (simp add: rules_def)
  have n: "fst (rules ! 0) = Some ''string''" by (simp add: rules_def)
  have i: \<open>CHR 0x0A \<notin> set ''a" "b''\<close> by simp
  have q: \<open>CHR 0x22 \<notin> set (takeWhile (\<lambda>c. c \<noteq> CHR 0x0A) (CHR 0x0A # ''"c"''))\<close> by simp
  from G r n i q have
    \<open>re_match (snd (rules ! 0)) (CHR 0x22 # ''a" "b'' @ CHR 0x22 # CHR 0x0A # ''"c"'') =
       Some \<lparr>group0 = CHR 0x22 # ''a" "b'' @ [CHR 0x22], group1 = ''a" "b''\<rparr>\<close> by blast
  with r n i q show ?thesis by (intro conjI)
qed


end
